theory Spec2Isabelle
  imports Main "HOL-Library.Sublist" "HOL-Library.Char_ord" "HOL-Library.List_Lexorder"
begin

section \<open>Version strings (main.py, normalize\_version and compare\_versions)\<close>

text \<open>
  A Python \<open>str\<close> is modelled as a \<^typ>\<open>string\<close> whose characters are the code points
  below 256 (\<^term>\<open>of_char c\<close> is the code point), so \<^const>\<open>length\<close> counts what
  Python's \<open>len\<close> counts on such a string. An exception is a value of the type
  \<open>error\<close>, and a function that can raise returns a sum with the exception on the left.
\<close>

datatype error = InvalidVersion | ValueError | IndexError | ClientError | TimeoutError

definition isdigit :: "char \<Rightarrow> bool" where
  \<comment> \<open>\<open>str.isdigit\<close> on one character: below code point 256 it holds for \<open>0\<close>..\<open>9\<close> and for
     the superscript digits U+00B2, U+00B3 and U+00B9.\<close>
  "isdigit c =
     (let n = (of_char c :: nat) in (48 \<le> n \<and> n \<le> 57) \<or> n = 178 \<or> n = 179 \<or> n = 185)"

definition is_dot :: "char \<Rightarrow> bool" where
  "is_dot c = (c = CHR ''.'')"

definition keep_or_dot :: "char \<Rightarrow> char" where
  \<comment> \<open>\<open>c if c.isdigit() or c == '.' else '.'\<close>\<close>
  "keep_or_dot c = (if isdigit c \<or> c = CHR ''.'' then c else CHR ''.'')"

text \<open>
  \<open>re.sub(r'\.+', '.', s)\<close>: scanning from the left, every maximal run of dots (the greedy
  match of \<open>\.+\<close>) is replaced by one dot and every other character is copied.
\<close>

function collapse_dots :: "string \<Rightarrow> string" where
  "collapse_dots [] = []"
| "collapse_dots (c # cs) =
     (if is_dot c then CHR ''.'' # collapse_dots (dropWhile is_dot cs)
      else c # collapse_dots cs)"
  by pat_completeness auto
termination
  by (relation "measure length") (auto simp: length_dropWhile_le less_Suc_eq_le)

definition strip_dots :: "string \<Rightarrow> string" where
  \<comment> \<open>\<open>s.strip('.')\<close>: the leading and the trailing dots are removed.\<close>
  "strip_dots s = rev (dropWhile is_dot (rev (dropWhile is_dot s)))"

definition normalize_version :: "string \<Rightarrow> string" where
  "normalize_version version_string =
     strip_dots (collapse_dots (map keep_or_dot version_string))"

subsection \<open>The \<open>packaging.version\<close> library, on normalized strings\<close>

text \<open>
  Modelled from the spec: \<open>version.parse\<close> and the order of the objects it returns belong
  to the third-party \<open>packaging\<close> library, which is not among the repository's sources.
  The specification (4.1) has \<open>compare\<close> parse each side "into an ordered tuple of integer
  components", with \<open>Unknown\<close> when a side does not parse into at least one; the
  definitions below follow that and, for what the specification leaves open, PEP 440 as
  the library implements it (release 22 or later, where an unparsable string raises
  \<open>InvalidVersion\<close>, the exception \<open>compare_versions\<close> catches).

  \<open>compare_versions\<close> calls \<open>version.parse\<close> only on results of
  \<^const>\<open>normalize_version\<close>, which hold nothing but \<open>isdigit\<close> characters and dots. On
  such a string the PEP 440 pattern can only match its release segment
  \<open>[0-9]+(\.[0-9]+)*\<close>: the epoch, pre, post, dev and local segments all need a letter
  or one of \<open>! - + _\<close>, and \<open>[0-9]\<close> matches the ASCII digits only. When the pattern does
  not match, the library raises \<open>InvalidVersion\<close>. When it matches, the release is
  \<open>tuple(int(i) for i in release.split("."))\<close>, and \<open>int\<close> raises \<open>ValueError\<close> on a
  string of more than 4300 digits (the default of \<open>sys.set_int_max_str_digits\<close> since
  Python 3.11; leading zeros count).
\<close>

definition ascii_digit :: "char \<Rightarrow> bool" where
  "ascii_digit c = (let n = (of_char c :: nat) in 48 \<le> n \<and> n \<le> 57)"

fun split_on :: "char \<Rightarrow> string \<Rightarrow> string list" where
  \<comment> \<open>\<open>s.split(d)\<close> for a one-character separator; the result is never empty.\<close>
  "split_on d [] = [[]]"
| "split_on d (c # cs) =
     (if c = d then [] # split_on d cs
      else (case split_on d cs of p # ps \<Rightarrow> (c # p) # ps | [] \<Rightarrow> [[c]]))"

definition int_max_str_digits :: nat where
  "int_max_str_digits = 4300"

definition int_of_digits :: "string \<Rightarrow> nat" where
  \<comment> \<open>The value of a string of ASCII digits, read in base ten.\<close>
  "int_of_digits ds = foldl (\<lambda>acc c. 10 * acc + (of_char c - 48)) 0 ds"

definition python_int :: "string \<Rightarrow> error + nat" where
  \<comment> \<open>\<open>int(i)\<close> on a string of ASCII digits.\<close>
  "python_int ds =
     (if length ds > int_max_str_digits then Inl ValueError else Inr (int_of_digits ds))"

fun release_of :: "string list \<Rightarrow> error + nat list" where
  \<comment> \<open>\<open>tuple(int(i) for i in parts)\<close>: the first \<open>int\<close> that raises ends the conversion.\<close>
  "release_of [] = Inr []"
| "release_of (p # ps) =
     (case python_int p of
        Inl e \<Rightarrow> Inl e
      | Inr n \<Rightarrow> (case release_of ps of Inl e \<Rightarrow> Inl e | Inr ns \<Rightarrow> Inr (n # ns)))"

definition release_segment :: "string \<Rightarrow> bool" where
  "release_segment s = list_all (\<lambda>p. p \<noteq> [] \<and> list_all ascii_digit p) (split_on CHR ''.'' s)"

definition parse_version :: "string \<Rightarrow> error + nat list" where
  \<comment> \<open>\<open>version.parse(s).release\<close>, or the exception that \<open>version.parse(s)\<close> raises.\<close>
  "parse_version s =
     (if release_segment s then release_of (split_on CHR ''.'' s) else Inl InvalidVersion)"

definition cmpkey :: "nat list \<Rightarrow> nat list" where
  \<comment> \<open>The release part of the library's comparison key: trailing zeros are dropped,
     \<open>reversed(dropwhile(lambda x: x == 0, reversed(release)))\<close>. The other parts of the key
     (epoch, pre, post, dev, local) are the same for all versions that are a release
     segment only, so the key comparison is decided by this part.\<close>
  "cmpkey release = rev (dropWhile (\<lambda>x. x = 0) (rev release))"

text \<open>
  Python's comparison of two tuples: the first position where the items differ decides
  by the items; when there is none, the lengths decide.
\<close>

fun tuple_lt :: "nat list \<Rightarrow> nat list \<Rightarrow> bool" where
  "tuple_lt [] [] = False"
| "tuple_lt [] (y # ys) = True"
| "tuple_lt (x # xs) [] = False"
| "tuple_lt (x # xs) (y # ys) = (if x = y then tuple_lt xs ys else x < y)"

fun tuple_gt :: "nat list \<Rightarrow> nat list \<Rightarrow> bool" where
  "tuple_gt [] [] = False"
| "tuple_gt [] (y # ys) = False"
| "tuple_gt (x # xs) [] = True"
| "tuple_gt (x # xs) (y # ys) = (if x = y then tuple_gt xs ys else x > y)"

definition version_lt :: "nat list \<Rightarrow> nat list \<Rightarrow> bool" where
  "version_lt v w = tuple_lt (cmpkey v) (cmpkey w)"

definition version_gt :: "nat list \<Rightarrow> nat list \<Rightarrow> bool" where
  "version_gt v w = tuple_gt (cmpkey v) (cmpkey w)"

text \<open>
  \<open>compare_versions\<close>: both calls of \<open>version.parse\<close> stand in the \<open>try\<close> block, whose
  only handler is \<open>except version.InvalidVersion\<close>; any other exception leaves the
  function.
\<close>

definition compare_versions :: "string \<Rightarrow> string \<Rightarrow> error + string" where
  "compare_versions installed_version latest_version =
     (case parse_version (normalize_version installed_version) of
        Inl e \<Rightarrow> if e = InvalidVersion then Inr ''unknown'' else Inl e
      | Inr installed_version_obj \<Rightarrow>
          (case parse_version (normalize_version latest_version) of
             Inl e \<Rightarrow> if e = InvalidVersion then Inr ''unknown'' else Inl e
           | Inr latest_version_obj \<Rightarrow>
               Inr (if version_lt installed_version_obj latest_version_obj
                      then ''update_available''
                    else if version_gt installed_version_obj latest_version_obj
                      then ''up_to_date''
                    else ''versions_equal'')))"

section \<open>Classification of the applications (main.py, main\_async)\<close>

text \<open>
  An application entry is the Python list \<open>[executable, identifier, installed_version]\<close>
  that \<open>load_all_info_plists\<close> builds; \<open>fetch_latest_version_for_app\<close> appends the latest
  version to it. Unpacking a list of the wrong length raises \<open>ValueError\<close>, and \<open>x[0]\<close> on
  an empty list raises \<open>IndexError\<close>.
\<close>

type_synonym app_entry = "string list"

fun str_contains :: "string \<Rightarrow> string \<Rightarrow> bool" where
  \<comment> \<open>\<open>sub in s\<close> on strings: \<open>sub\<close> occurs in \<open>s\<close> at some position.\<close>
  "str_contains [] sub = (sub = [])"
| "str_contains (c # cs) sub = (prefix sub (c # cs) \<or> str_contains cs sub)"

definition startswith :: "string \<Rightarrow> string \<Rightarrow> bool" where
  \<comment> \<open>\<open>s.startswith(p)\<close>\<close>
  "startswith s p = prefix p s"

definition already_current :: "string \<Rightarrow> string \<Rightarrow> bool" where
  \<comment> \<open>\<open>latest_version in installed_version or installed_version.startswith(latest_version)\<close>\<close>
  "already_current installed_version latest_version =
     (str_contains installed_version latest_version
      \<or> startswith installed_version latest_version)"

text \<open>
  One pass of the loop body over an entry. The result names the branch that was taken:
  the three \<open>continue\<close> statements before the comparison, or the comparison with the
  string \<open>compare_versions\<close> returned. More than four fields make the unpacking raise,
  and an exception of \<open>compare_versions\<close> leaves the loop.
\<close>

datatype verdict = No_latest_field | Incomplete | Already_current | Compared string

definition classify :: "app_entry \<Rightarrow> error + verdict" where
  "classify app_entry =
     (if length app_entry < 4 then Inr No_latest_field
      else (case app_entry of
              [app_name, bundle_identifier, installed_version, latest_version] \<Rightarrow>
                if installed_version = [] \<or> latest_version = [] then Inr Incomplete
                else if already_current installed_version latest_version
                  then Inr Already_current
                else (case compare_versions installed_version latest_version of
                        Inl e \<Rightarrow> Inl e
                      | Inr comparison_result \<Rightarrow> Inr (Compared comparison_result))
            | _ \<Rightarrow> Inl ValueError))"

fun collect_updates :: "app_entry list \<Rightarrow> app_entry list \<Rightarrow> error + app_entry list" where
  \<comment> \<open>The loop \<open>for app_entry in app_data\<close>, with the list \<open>updates\<close> built so far.\<close>
  "collect_updates updates [] = Inr updates"
| "collect_updates updates (app_entry # rest) =
     (case classify app_entry of
        Inl e \<Rightarrow> Inl e
      | Inr (Compared comparison_result) \<Rightarrow>
          if comparison_result = ''update_available''
          then collect_updates (updates @ [app_entry]) rest
          else collect_updates updates rest
      | Inr _ \<Rightarrow> collect_updates updates rest)"

definition lower_char :: "char \<Rightarrow> char" where
  \<comment> \<open>\<open>str.lower\<close> on one character below code point 256: \<open>A\<close>..\<open>Z\<close> and the capital
     letters U+00C0..U+00DE (but the sign U+00D7) move up by 32.\<close>
  "lower_char c =
     (let n = (of_char c :: nat)
      in if (65 \<le> n \<and> n \<le> 90) \<or> (192 \<le> n \<and> n \<le> 222 \<and> n \<noteq> 215)
         then char_of (n + 32) else c)"

definition lower :: "string \<Rightarrow> string" where
  "lower s = map lower_char s"

definition name_key :: "app_entry \<Rightarrow> string" where
  \<comment> \<open>The sort key \<open>x[0].lower()\<close> of an entry that has a first field.\<close>
  "name_key x = lower (hd x)"

definition sort_app_data :: "app_entry list \<Rightarrow> error + app_entry list" where
  \<comment> \<open>\<open>app_data.sort(key=lambda x: x[0].lower())\<close>: Python's sort is stable and compares
     strings by code points, as \<^const>\<open>sort_key\<close> does on \<^typ>\<open>string\<close>.\<close>
  "sort_app_data app_data =
     (if list_ex (\<lambda>x. x = []) app_data then Inl IndexError
      else Inr (sort_key name_key app_data))"

definition fetch_latest_version_for_app :: "string \<Rightarrow> app_entry \<Rightarrow> error + app_entry" where
  \<comment> \<open>The first argument is what \<open>scrape_latest_version\<close> returned for this entry.\<close>
  "fetch_latest_version_for_app latest_version app_entry =
     (case app_entry of
        [bundle_executable, bundle_identifier, installed_version] \<Rightarrow>
          Inr (app_entry @ [latest_version])
      | _ \<Rightarrow> Inl ValueError)"

fun fetch_latest_versions :: "(nat \<Rightarrow> string) \<Rightarrow> nat \<Rightarrow> app_entry list \<Rightarrow> error + app_entry list"
  where
  \<comment> \<open>\<open>scraped i\<close> is the answer of the remote lookup for the entry at position \<open>i\<close>; every
     task appends to its own entry, and \<open>gather\<close> returns when all of them are done.\<close>
  "fetch_latest_versions scraped i [] = Inr []"
| "fetch_latest_versions scraped i (app_entry # rest) =
     (case fetch_latest_version_for_app (scraped i) app_entry of
        Inl e \<Rightarrow> Inl e
      | Inr app_entry' \<Rightarrow>
          (case fetch_latest_versions scraped (Suc i) rest of
             Inl e \<Rightarrow> Inl e
           | Inr rest' \<Rightarrow> Inr (app_entry' # rest')))"

definition main_updates :: "(nat \<Rightarrow> string) \<Rightarrow> app_entry list \<Rightarrow> error + app_entry list" where
  \<comment> \<open>\<open>main_async\<close> from the sort of \<open>app_data\<close> to the list \<open>updates\<close>.\<close>
  "main_updates scraped app_data =
     (case sort_app_data app_data of
        Inl e \<Rightarrow> Inl e
      | Inr sorted_data \<Rightarrow>
          (case fetch_latest_versions scraped 0 sorted_data of
             Inl e \<Rightarrow> Inl e
           | Inr fetched \<Rightarrow> collect_updates [] fetched))"

section \<open>The remote lookup (main.py, scrape\_latest\_version)\<close>

text \<open>
  Modelled from the spec: the session that \<open>scrape_latest_version\<close> calls is a
  \<open>RetryClient\<close> of the third-party \<open>aiohttp_retry\<close> library, built in \<open>main_async\<close> with
  \<open>ExponentialRetry(attempts=3)\<close>; the library is not among the repository's sources.
  The specification (4.2) gives its policy: "up to 3 attempts per request; each retry
  interval grows exponentially from a small base (e.g., attempt k waits base * 2^(k-1));
  only network-level and transport failures and non-2xx statuses are retried", a
  timeout "counts as a retryable failure", and "on exhaustion of retries, returns
  ok=false with an empty body; this is never fatal to the caller".

  An attempt ends with a transport failure, with a timeout or with a response (status
  and body); \<open>outcome k\<close> is how the attempt number \<open>k\<close> (from 1) ends.
\<close>

datatype attempt = Transport_failure | Timed_out | Response nat string

definition attempts :: nat where
  \<comment> \<open>Modelled from the spec: "up to 3 attempts per request"; the source passes
     \<open>ExponentialRetry(attempts=3)\<close> to the library.\<close>
  "attempts = 3"

definition success :: "nat \<Rightarrow> bool" where
  \<comment> \<open>A 2xx status.\<close>
  "success status = (200 \<le> status \<and> status < 300)"

definition retryable :: "attempt \<Rightarrow> bool" where
  \<comment> \<open>Modelled from the spec: "only network-level and transport failures and non-2xx
     statuses are retried"; a timeout "counts as a retryable failure".\<close>
  "retryable a = (case a of Response status body \<Rightarrow> \<not> success status | _ \<Rightarrow> True)"

definition retry_interval :: "nat \<Rightarrow> nat \<Rightarrow> nat" where
  \<comment> \<open>Modelled from the spec: "attempt k waits base * 2^(k-1)", in the unit of the base.\<close>
  "retry_interval base k = base * 2 ^ (k - 1)"

fun retry_loop :: "nat \<Rightarrow> (nat \<Rightarrow> attempt) \<Rightarrow> nat \<Rightarrow> nat \<Rightarrow> attempt \<times> nat \<times> nat list" where
  \<comment> \<open>Modelled from the spec: the retry loop of the library's client. From the attempt
     number \<open>k\<close>, with so many attempts left after it: the outcome of the last attempt
     made, its number, and the waits between the attempts.\<close>
  "retry_loop base outcome k 0 = (outcome k, k, [])"
| "retry_loop base outcome k (Suc left) =
     (if retryable (outcome k)
      then (case retry_loop base outcome (Suc k) left of
              (last_outcome, n, waits) \<Rightarrow> (last_outcome, n, retry_interval base k # waits))
      else (outcome k, k, []))"

definition request :: "nat \<Rightarrow> (nat \<Rightarrow> attempt) \<Rightarrow> attempt \<times> nat \<times> nat list" where
  "request base outcome = retry_loop base outcome 1 (attempts - 1)"

definition attempts_made :: "nat \<Rightarrow> (nat \<Rightarrow> attempt) \<Rightarrow> nat" where
  "attempts_made base outcome = fst (snd (request base outcome))"

definition waits_made :: "nat \<Rightarrow> (nat \<Rightarrow> attempt) \<Rightarrow> nat list" where
  "waits_made base outcome = snd (snd (request base outcome))"

definition session_get :: "nat \<Rightarrow> (nat \<Rightarrow> attempt) \<Rightarrow> error + string" where
  \<comment> \<open>Modelled from the spec: "on exhaustion of retries, returns ok=false". This is
     what the \<open>try\<close> block of \<open>scrape_latest_version\<close> gets from the session, from
     \<open>session.get\<close> to \<open>response.text()\<close>: the body of a 2xx response, and otherwise
     (ok=false) the exception of the failure, \<open>asyncio.TimeoutError\<close> for a timeout and an
     \<open>aiohttp.ClientError\<close> for a transport failure or a status that is not 2xx.\<close>
  "session_get base outcome =
     (case fst (request base outcome) of
        Response status body \<Rightarrow> if success status then Inr body else Inl ClientError
      | Timed_out \<Rightarrow> Inl TimeoutError
      | Transport_failure \<Rightarrow> Inl ClientError)"

text \<open>
  From the source: \<open>scrape_latest_version\<close>. The HTML parser (\<open>BeautifulSoup\<close>, third
  party) is a parameter: \<open>cells text\<close> lists, for every \<open>td\<close> element of the page in
  document order, its text and the text of the next sibling \<open>td\<close>, if there is one.
  \<open>str.strip()\<close> removes the white space (\<open>str.isspace\<close>) at both ends.
\<close>

definition isspace :: "char \<Rightarrow> bool" where
  \<comment> \<open>\<open>str.isspace\<close> on one character below code point 256.\<close>
  "isspace c =
     (let n = (of_char c :: nat)
      in (9 \<le> n \<and> n \<le> 13) \<or> (28 \<le> n \<and> n \<le> 32) \<or> n = 133 \<or> n = 160)"

definition strip :: "string \<Rightarrow> string" where
  "strip s = rev (dropWhile isspace (rev (dropWhile isspace s)))"

fun scan_cells :: "string \<Rightarrow> (string \<times> string option) list \<Rightarrow> string" where
  \<comment> \<open>The loop \<open>for td in soup.find_all("td")\<close>, and the \<open>return ""\<close> after it.\<close>
  "scan_cells label [] = []"
| "scan_cells label ((td_text, next_td) # rest) =
     (if strip td_text = label
      then (case next_td of Some next_text \<Rightarrow> strip next_text | None \<Rightarrow> scan_cells label rest)
      else scan_cells label rest)"

definition scrape_latest_version ::
  "(string \<Rightarrow> (string \<times> string option) list) \<Rightarrow> error + string \<Rightarrow> string \<Rightarrow> error + string" where
  \<comment> \<open>The second argument is what the session gave; the handler is
     \<open>except (aiohttp.ClientError, asyncio.TimeoutError): return ""\<close>.\<close>
  "scrape_latest_version cells got label =
     (case got of
        Inl e \<Rightarrow> if e = ClientError \<or> e = TimeoutError then Inr [] else Inl e
      | Inr text \<Rightarrow> Inr (scan_cells label (cells text)))"

definition lookup ::
  "(string \<Rightarrow> (string \<times> string option) list) \<Rightarrow> nat \<Rightarrow> (nat \<Rightarrow> attempt) \<Rightarrow> error + string" where
  \<comment> \<open>One remote lookup, as \<open>fetch_latest_version_for_app\<close> makes it.\<close>
  "lookup cells base outcome =
     scrape_latest_version cells (session_get base outcome) ''Version String:''"

section \<open>The specification's wording, for comparison with the code\<close>

definition dots_single :: "string \<Rightarrow> bool" where
  \<comment> \<open>No two neighbouring characters are both dots.\<close>
  "dots_single s = successively (\<lambda>a b. \<not> (is_dot a \<and> is_dot b)) s"

definition trimmed :: "string \<Rightarrow> bool" where
  "trimmed s = (s = [] \<or> (\<not> is_dot (hd s) \<and> \<not> is_dot (last s)))"




definition decimal_digit :: "char \<Rightarrow> bool" where
  \<comment> \<open>A digit, as the specification's sentence reads: one of the ten characters 0 to 9.\<close>
  "decimal_digit c = (c \<in> set ''0123456789'')"


definition superscript_digit :: "char \<Rightarrow> bool" where
  \<comment> \<open>The superscript two, three and one: the characters below code point 256 that
     \<open>str.isdigit\<close> accepts beside 0 to 9.\<close>
  "superscript_digit c = (c \<in> set [CHR 0xB2, CHR 0xB3, CHR 0xB9])"

definition unicode_digit :: "char \<Rightarrow> bool" where
  "unicode_digit c = (decimal_digit c \<or> superscript_digit c)"


definition version_char :: "char \<Rightarrow> bool" where
  "version_char c = (unicode_digit c \<or> is_dot c)"




definition needs_update :: "app_entry \<Rightarrow> bool" where
  \<comment> \<open>The entries that the loop appends to \<open>updates\<close>.\<close>
  "needs_update app_entry = (classify app_entry = Inr (Compared ''update_available''))"

text \<open>
  "Sorts by display name, case-insensitive": the letters that have two cases, capital
  beside small, and the name with every capital letter replaced by its small one.
\<close>

definition capital_letters :: string where
  "capital_letters =
     ''ABCDEFGHIJKLMNOPQRSTUVWXYZ'' @
     [CHR 0xC0, CHR 0xC1, CHR 0xC2, CHR 0xC3, CHR 0xC4, CHR 0xC5, CHR 0xC6, CHR 0xC7, CHR
     0xC8, CHR 0xC9, CHR 0xCA, CHR 0xCB, CHR 0xCC, CHR 0xCD, CHR 0xCE, CHR 0xCF, CHR
     0xD0, CHR 0xD1, CHR 0xD2, CHR 0xD3, CHR 0xD4, CHR 0xD5, CHR 0xD6, CHR 0xD8, CHR
     0xD9, CHR 0xDA, CHR 0xDB, CHR 0xDC, CHR 0xDD, CHR 0xDE]"

definition small_letters :: string where
  "small_letters =
     ''abcdefghijklmnopqrstuvwxyz'' @
     [CHR 0xE0, CHR 0xE1, CHR 0xE2, CHR 0xE3, CHR 0xE4, CHR 0xE5, CHR 0xE6, CHR 0xE7, CHR
     0xE8, CHR 0xE9, CHR 0xEA, CHR 0xEB, CHR 0xEC, CHR 0xED, CHR 0xEE, CHR 0xEF, CHR
     0xF0, CHR 0xF1, CHR 0xF2, CHR 0xF3, CHR 0xF4, CHR 0xF5, CHR 0xF6, CHR 0xF8, CHR
     0xF9, CHR 0xFA, CHR 0xFB, CHR 0xFC, CHR 0xFD, CHR 0xFE]"

definition small_of :: "char \<Rightarrow> char" where
  "small_of c =
     (case map_of (zip capital_letters small_letters) c of Some l \<Rightarrow> l | None \<Rightarrow> c)"

definition caseless_name :: "app_entry \<Rightarrow> string" where
  "caseless_name x = map small_of (hd x)"

definition short_versions :: "app_entry \<Rightarrow> bool" where
  \<comment> \<open>No field of the entry has more characters than \<open>int\<close> converts.\<close>
  "short_versions x = list_all (\<lambda>field. length field \<le> int_max_str_digits) x"

section \<open>Normalization\<close>

lemma isdigit_unicode_digit: "isdigit c = unicode_digit c"
proof (cases c)
  case (Char b0 b1 b2 b3 b4 b5 b6 b7)
  show ?thesis
    unfolding Char
    by (cases b0; cases b1; cases b2; cases b3; cases b4; cases b5; cases b6; cases b7;
        simp add: isdigit_def unicode_digit_def decimal_digit_def superscript_digit_def)
qed

lemma ascii_digit_decimal_digit: "ascii_digit c = decimal_digit c"
proof (cases c)
  case (Char b0 b1 b2 b3 b4 b5 b6 b7)
  show ?thesis
    unfolding Char
    by (cases b0; cases b1; cases b2; cases b3; cases b4; cases b5; cases b6; cases b7;
        simp add: ascii_digit_def decimal_digit_def)
qed

lemma keep_or_dot_version_char: "version_char (keep_or_dot c)"
  by (simp add: version_char_def keep_or_dot_def is_dot_def isdigit_unicode_digit)


lemma keep_or_dot_id: "version_char c \<Longrightarrow> keep_or_dot c = c"
  by (auto simp: version_char_def keep_or_dot_def is_dot_def isdigit_unicode_digit)

lemma set_collapse_dots: "set (collapse_dots s) \<subseteq> set s"
proof (induction s rule: collapse_dots.induct)
  case 1
  then show ?case by simp
next
  case (2 c cs)
  have "set (dropWhile is_dot cs) \<subseteq> set cs"
    by (rule set_dropWhileD [THEN subsetI])
  with 2 show ?case by (auto simp: is_dot_def)
qed

lemma set_strip_dots: "set (strip_dots s) \<subseteq> set s"
  unfolding strip_dots_def
  by (auto dest!: set_dropWhileD)

lemma collapse_dots_Nil_iff: "collapse_dots s = [] \<longleftrightarrow> s = []"
  by (cases s) auto

lemma hd_collapse_dots: "s \<noteq> [] \<Longrightarrow> is_dot (hd (collapse_dots s)) = is_dot (hd s)"
  by (cases s) (auto simp: is_dot_def)

lemma dots_single_collapse: "dots_single (collapse_dots s)"
proof (induction s rule: collapse_dots.induct)
  case 1
  then show ?case by (simp add: dots_single_def)
next
  case (2 c cs)
  show ?case
  proof (cases "is_dot c")
    case True
    let ?r = "dropWhile is_dot cs"
    have "?r = [] \<or> \<not> is_dot (hd (collapse_dots ?r))"
    proof (cases "?r = []")
      case True
      then show ?thesis by simp
    next
      case False
      then have "\<not> is_dot (hd ?r)" by (rule hd_dropWhile)
      with False show ?thesis by (simp add: hd_collapse_dots)
    qed
    with True 2 show ?thesis
      by (auto simp: dots_single_def successively_Cons collapse_dots_Nil_iff)
  next
    case False
    with 2 show ?thesis
      by (auto simp: dots_single_def successively_Cons)
  qed
qed

lemma collapse_dots_id: "dots_single s \<Longrightarrow> collapse_dots s = s"
proof (induction s rule: collapse_dots.induct)
  case 1
  then show ?case by simp
next
  case (2 c cs)
  show ?case
  proof (cases "is_dot c")
    case True
    with "2.prems" have "cs = [] \<or> \<not> is_dot (hd cs)"
      by (auto simp: dots_single_def successively_Cons)
    then have eq: "dropWhile is_dot cs = cs"
      by (cases cs) auto
    from "2.prems" have "dots_single cs"
      by (auto simp: dots_single_def successively_Cons)
    with 2(1) True eq show ?thesis by (simp add: is_dot_def)
  next
    case False
    from "2.prems" have "dots_single cs"
      by (auto simp: dots_single_def successively_Cons)
    with 2(2) False show ?thesis by simp
  qed
qed

lemma dots_single_dropWhile: "dots_single s \<Longrightarrow> dots_single (dropWhile P s)"
proof -
  assume a: "dots_single s"
  have "s = takeWhile P s @ dropWhile P s" by simp
  with a have "dots_single (takeWhile P s @ dropWhile P s)" by simp
  then show ?thesis
    unfolding dots_single_def successively_append_iff by simp
qed

lemma dots_single_rev: "dots_single (rev s) = dots_single s"
proof -
  have "(\<lambda>x y. \<not> (is_dot y \<and> is_dot x)) = (\<lambda>a b. \<not> (is_dot a \<and> is_dot b))"
    by (intro ext) (simp add: conj_commute)
  then show ?thesis
    unfolding dots_single_def successively_rev by (rule arg_cong)
qed

lemma dots_single_strip: "dots_single s \<Longrightarrow> dots_single (strip_dots s)"
  by (simp add: strip_dots_def dots_single_rev dots_single_dropWhile)

lemma trimmed_strip_dots: "trimmed (strip_dots s)"
proof -
  let ?a = "dropWhile is_dot s"
  let ?b = "dropWhile is_dot (rev ?a)"
  show ?thesis
  proof (cases "?b = []")
    case True
    then show ?thesis by (simp add: trimmed_def strip_dots_def)
  next
    case False
    then have nb: "\<not> is_dot (hd ?b)" by (rule hd_dropWhile)
    have "?a \<noteq> []"
    proof
      assume "?a = []"
      then have "?b = []" by (simp del: dropWhile_eq_Nil_conv)
      with False show False by simp
    qed
    then have na: "\<not> is_dot (hd ?a)" by (rule hd_dropWhile)
    have "rev ?a = takeWhile is_dot (rev ?a) @ ?b" by simp
    then have "?a = rev ?b @ rev (takeWhile is_dot (rev ?a))"
      by (metis rev_append rev_rev_ident)
    with False have "hd ?a = hd (rev ?b)" by (metis hd_append2 rev_is_Nil_conv)
    with na nb False show ?thesis
      by (simp add: trimmed_def strip_dots_def last_rev)
  qed
qed

lemma strip_dots_id: "trimmed s \<Longrightarrow> strip_dots s = s"
proof (cases "s = []")
  case True
  then show ?thesis by (simp add: strip_dots_def)
next
  case False
  assume "trimmed s"
  with False have h: "\<not> is_dot (hd s)" and l: "\<not> is_dot (last s)"
    by (auto simp: trimmed_def)
  from False h have a: "dropWhile is_dot s = s" by (cases s) auto
  from False l have "\<not> is_dot (hd (rev s))" by (simp add: hd_rev)
  with False have b: "dropWhile is_dot (rev s) = rev s" by (cases "rev s") auto
  show ?thesis by (simp add: strip_dots_def a b)
qed

lemma normalize_version_chars: "list_all version_char (normalize_version s)"
proof -
  have "set (normalize_version s) \<subseteq> set (map keep_or_dot s)"
    unfolding normalize_version_def
    using set_strip_dots set_collapse_dots by (rule subset_trans)
  then show ?thesis
    by (auto simp: list_all_iff keep_or_dot_version_char)
qed

lemma normalize_version_dots_single: "dots_single (normalize_version s)"
  by (simp add: normalize_version_def dots_single_strip dots_single_collapse)

lemma normalize_version_trimmed: "trimmed (normalize_version s)"
  by (simp add: normalize_version_def trimmed_strip_dots)

lemma normalize_fixpoint:
  assumes "list_all version_char t" "dots_single t" "trimmed t"
  shows "normalize_version t = t"
proof -
  from assms(1) have "map keep_or_dot t = t"
    by (simp add: list_all_iff map_idI keep_or_dot_id)
  with assms(2,3) show ?thesis
    by (simp add: normalize_version_def collapse_dots_id strip_dots_id)
qed











text \<open>
  C6: normalizing twice is the same as normalizing once, for every string.
\<close>

theorem normalize_version_idempotent:
  "normalize_version (normalize_version a) = normalize_version a"
  by (rule normalize_fixpoint)
     (rule normalize_version_chars normalize_version_dots_single normalize_version_trimmed)+

section \<open>Comparison\<close>

lemma split_on_not_Nil: "split_on d s \<noteq> []"
  by (induction s) (auto split: list.splits)







lemma tuple_gt_swap: "tuple_gt xs ys = tuple_lt ys xs"
  by (induction xs ys rule: tuple_gt.induct) auto


lemma tuple_lt_asym: "tuple_lt xs ys \<Longrightarrow> \<not> tuple_lt ys xs"
  by (induction xs ys rule: tuple_lt.induct) (auto split: if_splits)














subsection \<open>A component of more than 4300 digits\<close>

lemma split_on_no_separator: "d \<notin> set s \<Longrightarrow> split_on d s = [s]"
  by (induction s) auto

lemma ascii_digit_not_dot: "ascii_digit c \<Longrightarrow> \<not> is_dot c"
  by (auto simp: ascii_digit_def is_dot_def)

lemma no_dots_single: "list_all (\<lambda>c. \<not> is_dot c) s \<Longrightarrow> dots_single s"
  unfolding dots_single_def
  by (induction s rule: induct_list012) auto

lemma normalize_version_digits:
  assumes "list_all ascii_digit s"
  shows "normalize_version s = s"
proof (rule normalize_fixpoint)
  from assms show "list_all version_char s"
    by (auto simp: list_all_iff version_char_def unicode_digit_def ascii_digit_decimal_digit)
  from assms have nd: "list_all (\<lambda>c. \<not> is_dot c) s"
    by (auto simp: list_all_iff ascii_digit_not_dot)
  then show "dots_single s" by (rule no_dots_single)
  from nd show "trimmed s"
    by (cases "s = []") (auto simp: trimmed_def list_all_iff)
qed

lemma parse_version_long_component:
  assumes "list_all ascii_digit s" and "int_max_str_digits < length s"
  shows "parse_version s = Inl ValueError"
proof -
  from assms(1) have "CHR ''.'' \<notin> set s"
    using ascii_digit_not_dot by (auto simp: list_all_iff is_dot_def)
  then have sp: "split_on CHR ''.'' s = [s]" by (rule split_on_no_separator)
  from assms(2) have "s \<noteq> []" by auto
  with assms sp show ?thesis
    by (simp add: parse_version_def release_segment_def python_int_def)
qed

lemma compare_versions_long_component:
  assumes "list_all ascii_digit s" and "int_max_str_digits < length s"
  shows "compare_versions s b = Inl ValueError"
  using assms
  by (simp add: compare_versions_def normalize_version_digits parse_version_long_component)

lemma ones_long: "list_all ascii_digit (replicate 4301 CHR ''1'')
    \<and> int_max_str_digits < length (replicate 4301 CHR ''1'')"
  by (simp add: list_all_iff ascii_digit_def int_max_str_digits_def)

lemma parse_version_empty: "parse_version (normalize_version []) = Inl InvalidVersion"
  by code_simp

lemma compare_versions_unknown_iff:
  "compare_versions a b = Inr ''unknown'' \<longleftrightarrow>
     parse_version (normalize_version a) = Inl InvalidVersion
     \<or> (\<exists>xs. parse_version (normalize_version a) = Inr xs)
        \<and> parse_version (normalize_version b) = Inl InvalidVersion"
  by (auto simp: compare_versions_def split: sum.splits)

lemma compare_versions_update_iff:
  "compare_versions a b = Inr ''update_available'' \<longleftrightarrow>
     (\<exists>xs ys. parse_version (normalize_version a) = Inr xs
        \<and> parse_version (normalize_version b) = Inr ys \<and> tuple_lt (cmpkey xs) (cmpkey ys))"
  by (auto simp: compare_versions_def version_lt_def split: sum.splits)

lemma compare_versions_up_to_date_iff:
  "compare_versions a b = Inr ''up_to_date'' \<longleftrightarrow>
     (\<exists>xs ys. parse_version (normalize_version a) = Inr xs
        \<and> parse_version (normalize_version b) = Inr ys \<and> tuple_lt (cmpkey ys) (cmpkey xs))"
  by (auto simp: compare_versions_def version_lt_def version_gt_def tuple_gt_swap
      dest: tuple_lt_asym split: sum.splits)

section \<open>The update set\<close>

lemma str_contains_sublist: "str_contains s sub = sublist sub s"
  by (induction s) (auto simp: sublist_Cons_right)

lemma startswith_contains: "startswith s p \<Longrightarrow> str_contains s p"
  by (simp add: startswith_def str_contains_sublist)

lemma already_current_contains: "already_current s p = str_contains s p"
  unfolding already_current_def using startswith_contains by blast

lemma classify_four:
  "classify [n, i, inst, lat] =
     (if inst = [] \<or> lat = [] then Inr Incomplete
      else if already_current inst lat then Inr Already_current
      else (case compare_versions inst lat of
              Inl e \<Rightarrow> Inl e
            | Inr comparison_result \<Rightarrow> Inr (Compared comparison_result)))"
  by (simp add: classify_def)

lemma needs_update_four:
  "needs_update [n, i, inst, lat] \<longleftrightarrow>
     inst \<noteq> [] \<and> lat \<noteq> [] \<and> \<not> already_current inst lat
     \<and> compare_versions inst lat = Inr ''update_available''"
  by (auto simp: needs_update_def classify_four split: sum.splits)

lemma collect_updates_filter:
  "collect_updates acc xs = Inr ups \<Longrightarrow> ups = acc @ filter needs_update xs"
proof (induction xs arbitrary: acc)
  case Nil
  then show ?case by simp
next
  case (Cons e es)
  show ?case
  proof (cases "classify e")
    case (Inl err)
    with Cons.prems show ?thesis by simp
  next
    case (Inr v)
    show ?thesis
    proof (cases "v = Compared ''update_available''")
      case True
      with Inr Cons.prems have "collect_updates (acc @ [e]) es = Inr ups" by simp
      then have "ups = (acc @ [e]) @ filter needs_update es" by (rule Cons.IH)
      moreover from True Inr have "needs_update e" by (simp add: needs_update_def)
      ultimately show ?thesis by simp
    next
      case False
      with Inr Cons.prems have "collect_updates acc es = Inr ups"
        by (cases v) (auto split: if_splits)
      then have "ups = acc @ filter needs_update es" by (rule Cons.IH)
      moreover from False Inr have "\<not> needs_update e" by (simp add: needs_update_def)
      ultimately show ?thesis by simp
    qed
  qed
qed

text \<open>
  C2: an entry whose installed and latest versions are both non-empty and whose latest
  version occurs in the installed version, or is a prefix of it, leaves the loop body at
  the \<open>continue\<close> before the call of \<open>compare_versions\<close> (the verdict is
  \<^const>\<open>Already_current\<close>, not \<^const>\<open>Compared\<close>), and it is not in the list of updates,
  whatever the comparison would have returned. The installed version \<open>12.3 (4567)\<close> with
  the latest version \<open>12.3\<close> is such an entry.
\<close>

theorem prefilter_excludes:
  "(installed_version \<noteq> [] \<and> latest_version \<noteq> []
      \<and> (str_contains installed_version latest_version
           \<or> startswith installed_version latest_version)
    \<longrightarrow> classify [app_name, bundle_identifier, installed_version, latest_version]
          = Inr Already_current
        \<and> (collect_updates [] app_data = Inr updates
             \<longrightarrow> [app_name, bundle_identifier, installed_version, latest_version] \<notin> set updates))
   \<and> classify [''App'', ''com.app'', ''12.3 (4567)'', ''12.3''] = Inr Already_current"
proof -
  have ex: "classify [''App'', ''com.app'', ''12.3 (4567)'', ''12.3''] = Inr Already_current"
    by code_simp
  have "\<not> needs_update [app_name, bundle_identifier, installed_version, latest_version]"
    if "already_current installed_version latest_version"
    using that by (simp add: needs_update_four)
  then show ?thesis
    using ex collect_updates_filter [of "[]" app_data updates]
    by (auto simp: classify_four already_current_def)
qed

theorem prefilter_excludes_witness:
  "''12.3 (4567)'' \<noteq> [] \<and> ''12.3'' \<noteq> []
   \<and> str_contains ''12.3 (4567)'' ''12.3''
   \<and> classify [''App'', ''com.app'', ''12.3 (4567)'', ''12.3''] = Inr Already_current
   \<and> collect_updates []
        [[''App'', ''com.app'', ''12.3 (4567)'', ''12.3''], [''Foo'', ''com.foo'', ''1.0.0'', ''1.1.0'']]
      = Inr [[''Foo'', ''com.foo'', ''1.0.0'', ''1.1.0'']]
   \<and> [''App'', ''com.app'', ''12.3 (4567)'', ''12.3'']
        \<notin> set [[''Foo'', ''com.foo'', ''1.0.0'', ''1.1.0'']]"
proof -
  have a: "str_contains ''12.3 (4567)'' ''12.3''" by code_simp
  have b: "collect_updates []
        [[''App'', ''com.app'', ''12.3 (4567)'', ''12.3''], [''Foo'', ''com.foo'', ''1.0.0'', ''1.1.0'']]
      = Inr [[''Foo'', ''com.foo'', ''1.0.0'', ''1.1.0'']]" by code_simp
  have c: "''12.3 (4567)'' \<noteq> [] \<and> ''12.3'' \<noteq> []" by simp
  from a b c prefilter_excludes [of "''12.3 (4567)''" "''12.3''" "''App''" "''com.app''"
      "[[''App'', ''com.app'', ''12.3 (4567)'', ''12.3''], [''Foo'', ''com.foo'', ''1.0.0'', ''1.1.0'']]"
      "[[''Foo'', ''com.foo'', ''1.0.0'', ''1.1.0'']]"]
  show ?thesis by blast
qed

text \<open>
  C9: a string that starts with \<open>latest_version\<close> contains it, so the condition of the
  pre-filter, \<open>latest in installed or installed.startswith(latest)\<close>, is equivalent to
  its first disjunct alone.
\<close>

theorem startswith_disjunct_redundant:
  "(startswith installed_version latest_version \<longrightarrow> str_contains installed_version latest_version)
   \<and> already_current installed_version latest_version
       = str_contains installed_version latest_version"
  using startswith_contains already_current_contains by blast

theorem startswith_disjunct_redundant_witness:
  "startswith ''12.3 (4567)'' ''12.3'' \<and> str_contains ''12.3 (4567)'' ''12.3''
   \<and> already_current ''12.3 (4567)'' ''12.3'' = str_contains ''12.3 (4567)'' ''12.3''"
proof -
  have "startswith ''12.3 (4567)'' ''12.3''" by code_simp
  with startswith_disjunct_redundant [of "''12.3 (4567)''" "''12.3''"] show ?thesis by blast
qed

subsection \<open>The order of the update set\<close>

lemma lower_char_small_of: "lower_char c = small_of c"
proof (cases c)
  case (Char b0 b1 b2 b3 b4 b5 b6 b7)
  show ?thesis
    unfolding Char
    by (cases b0; cases b1; cases b2; cases b3; cases b4; cases b5; cases b6; cases b7;
        simp add: lower_char_def small_of_def capital_letters_def small_letters_def
          char_of_eq_iff)
qed

lemma name_key_caseless: "name_key = caseless_name"
  by (rule ext) (simp add: name_key_def caseless_name_def lower_def lower_char_small_of)

lemma sort_app_data_result:
  "sort_app_data app_data = Inr sorted_data \<Longrightarrow> sorted_data = sort_key name_key app_data"
  by (auto simp: sort_app_data_def split: if_splits)

lemma fetch_latest_versions_result:
  "fetch_latest_versions scraped i xs = Inr fetched \<Longrightarrow>
   map butlast fetched = xs \<and> map caseless_name fetched = map caseless_name xs
   \<and> list_all (\<lambda>e. length e = 4) fetched"
proof (induction xs arbitrary: i fetched)
  case Nil
  then show ?case by simp
next
  case (Cons e es)
  from Cons.prems obtain e' where e': "fetch_latest_version_for_app (scraped i) e = Inr e'"
    by (auto split: sum.splits)
  then obtain a b c where e: "e = [a, b, c]" and e'': "e' = [a, b, c, scraped i]"
    by (auto simp: fetch_latest_version_for_app_def split: list.splits)
  from Cons.prems e' obtain es' where es': "fetch_latest_versions scraped (Suc i) es = Inr es'"
    and f: "fetched = e' # es'"
    by (auto split: sum.splits)
  from es' have ih: "map butlast es' = es \<and> map caseless_name es' = map caseless_name es
      \<and> list_all (\<lambda>e. length e = 4) es'"
    by (rule Cons.IH)
  have k: "caseless_name [a, b, c, scraped i] = caseless_name [a, b, c]"
    by (simp add: caseless_name_def)
  from ih k show ?case by (simp add: f e e'')
qed

text \<open>
  C8: when \<open>main_async\<close> gets to its list \<open>updates\<close>, the application data were sorted by
  name without regard to case (the sort is stable, and the key is the name with every
  capital letter replaced by its small one), the latest versions were attached without
  changing the order (\<open>fetched\<close>), and \<open>updates\<close> is a subsequence of \<open>fetched\<close>: the
  entries of the update set stand in the order of the sorted input, so they are
  themselves sorted by name without regard to case. Nothing is sorted again.
\<close>

theorem updates_follow_sorted_input:
  assumes "main_updates scraped app_data = Inr updates"
  shows "\<exists>sorted_data fetched.
           sort_app_data app_data = Inr sorted_data
         \<and> sorted (map caseless_name sorted_data)
         \<and> (\<forall>k. filter (\<lambda>x. caseless_name x = k) sorted_data
                 = filter (\<lambda>x. caseless_name x = k) app_data)
         \<and> fetch_latest_versions scraped 0 sorted_data = Inr fetched
         \<and> map butlast fetched = sorted_data
         \<and> subseq updates fetched
         \<and> sorted (map caseless_name updates)"
proof -
  from assms obtain sorted_data where sd: "sort_app_data app_data = Inr sorted_data"
    by (auto simp: main_updates_def split: sum.splits)
  with assms obtain fetched where f: "fetch_latest_versions scraped 0 sorted_data = Inr fetched"
    by (auto simp: main_updates_def split: sum.splits)
  with assms sd have u: "collect_updates [] fetched = Inr updates"
    by (simp add: main_updates_def)
  have eq: "sorted_data = sort_key caseless_name app_data"
    using sort_app_data_result [OF sd] by (simp add: name_key_caseless)
  have s: "sorted (map caseless_name sorted_data)"
    unfolding eq by (rule sorted_sort_key)
  have st: "\<forall>k. filter (\<lambda>x. caseless_name x = k) sorted_data
                 = filter (\<lambda>x. caseless_name x = k) app_data"
    unfolding eq by (simp add: sort_key_stable)
  note r = fetch_latest_versions_result [OF f]
  have filt: "updates = filter needs_update fetched"
    using collect_updates_filter [OF u] by simp
  have sf: "sorted (map caseless_name fetched)"
    using r s by simp
  have "subseq updates fetched" unfolding filt by simp
  moreover have "sorted (map caseless_name updates)"
    unfolding filt using sf by (rule sorted_filter)
  ultimately show ?thesis using sd s st f r by blast
qed

theorem updates_follow_sorted_input_witness:
  "main_updates (\<lambda>i. ''3.1'')
     [[''bar'', ''com.bar'', ''1.0.0''], [''Foo'', ''com.foo'', ''3.1.0''], [''Baz'', ''com.baz'', ''3.0'']]
   = Inr [[''bar'', ''com.bar'', ''1.0.0'', ''3.1''], [''Baz'', ''com.baz'', ''3.0'', ''3.1'']]
   \<and> (\<exists>sorted_data fetched.
         sort_app_data
           [[''bar'', ''com.bar'', ''1.0.0''], [''Foo'', ''com.foo'', ''3.1.0''], [''Baz'', ''com.baz'', ''3.0'']]
           = Inr sorted_data
       \<and> sorted (map caseless_name sorted_data)
       \<and> (\<forall>k. filter (\<lambda>x. caseless_name x = k) sorted_data
               = filter (\<lambda>x. caseless_name x = k)
                   [[''bar'', ''com.bar'', ''1.0.0''], [''Foo'', ''com.foo'', ''3.1.0''],
                    [''Baz'', ''com.baz'', ''3.0'']])
       \<and> fetch_latest_versions (\<lambda>i. ''3.1'') 0 sorted_data = Inr fetched
       \<and> map butlast fetched = sorted_data
       \<and> subseq [[''bar'', ''com.bar'', ''1.0.0'', ''3.1''], [''Baz'', ''com.baz'', ''3.0'', ''3.1'']]
           fetched
       \<and> sorted (map caseless_name
           [[''bar'', ''com.bar'', ''1.0.0'', ''3.1''], [''Baz'', ''com.baz'', ''3.0'', ''3.1'']]))"
proof -
  let ?d = "[[''bar'', ''com.bar'', ''1.0.0''], [''Foo'', ''com.foo'', ''3.1.0''], [''Baz'', ''com.baz'', ''3.0'']]"
  have c: "main_updates (\<lambda>i. ''3.1'') ?d
      = Inr [[''bar'', ''com.bar'', ''1.0.0'', ''3.1''], [''Baz'', ''com.baz'', ''3.0'', ''3.1'']]"
    by code_simp
  from c updates_follow_sorted_input [OF c] show ?thesis by blast
qed

section \<open>The exception that \<open>compare_versions\<close> does not catch\<close>

lemma parse_version_digits:
  assumes "list_all ascii_digit s" and "s \<noteq> []" and "length s \<le> int_max_str_digits"
  shows "parse_version s = Inr [int_of_digits s]"
proof -
  from assms(1) have "CHR ''.'' \<notin> set s"
    using ascii_digit_not_dot by (auto simp: list_all_iff is_dot_def)
  then have "split_on CHR ''.'' s = [s]" by (rule split_on_no_separator)
  with assms show ?thesis
    by (simp add: parse_version_def release_segment_def python_int_def)
qed

lemma ones_short: "list_all ascii_digit (replicate 4300 CHR ''1'')
    \<and> replicate 4300 CHR ''1'' \<noteq> []
    \<and> length (replicate 4300 CHR ''1'') \<le> int_max_str_digits"
  by (simp add: list_all_iff ascii_digit_def int_max_str_digits_def)

lemma parse_version_beta: "parse_version (normalize_version ''beta'') = Inl InvalidVersion"
  by code_simp

lemma ones_not_current: "\<not> already_current (replicate 4301 CHR ''1'') ''beta''"
proof
  assume "already_current (replicate 4301 CHR ''1'') ''beta''"
  then have "sublist ''beta'' (replicate 4301 CHR ''1'')"
    by (simp add: already_current_contains str_contains_sublist)
  then have "set ''beta'' \<subseteq> set (replicate 4301 CHR ''1'')" by (rule set_mono_sublist)
  then show False by simp
qed

text \<open>
  C7, at the failing input: the installed version is a run of 4301 digits and the latest
  version is \<open>beta\<close> (or the empty string), which does not parse (\<open>InvalidVersion\<close>).
  The claim has \<open>unknown\<close> for the comparison; \<open>int\<close> raises \<open>ValueError\<close> on the
  installed version in the first call of \<open>version.parse\<close>, the handler
  \<open>except version.InvalidVersion\<close> does not catch it, and \<open>compare_versions\<close> returns none
  of the four strings of its docstring; the exception leaves the loop of \<open>main_async\<close>
  too. With 4300 digits the comparison is \<open>unknown\<close>, as the claim has it.
\<close>

theorem unparsable_raises_value_error:
  "parse_version (normalize_version ''beta'') = Inl InvalidVersion
   \<and> compare_versions (replicate 4301 CHR ''1'') ''beta'' = Inl ValueError
   \<and> parse_version (normalize_version []) = Inl InvalidVersion
   \<and> compare_versions (replicate 4301 CHR ''1'') [] = Inl ValueError
   \<and> classify [''App'', ''com.app'', replicate 4301 CHR ''1'', ''beta''] = Inl ValueError
   \<and> compare_versions (replicate 4300 CHR ''1'') ''beta'' = Inr ''unknown''"
proof -
  have l: "compare_versions (replicate 4301 CHR ''1'') b = Inl ValueError" for b
    using ones_long compare_versions_long_component [of "replicate 4301 CHR ''1''" b]
    by blast
  have c: "classify [''App'', ''com.app'', replicate 4301 CHR ''1'', ''beta''] = Inl ValueError"
    using ones_not_current by (simp add: classify_four l)
  have "parse_version (normalize_version (replicate 4300 CHR ''1''))
      = Inr [int_of_digits (replicate 4300 CHR ''1'')]"
    using ones_short
    by (simp add: normalize_version_digits parse_version_digits del: replicate_eq_replicate)
  then have s: "compare_versions (replicate 4300 CHR ''1'') ''beta'' = Inr ''unknown''"
    unfolding compare_versions_unknown_iff using parse_version_beta by blast
  from l [of "''beta''"] l [of "[]"] c s parse_version_beta parse_version_empty
  show ?thesis by blast
qed

text \<open>
  C10, at the failing input: with \<open>beta\<close> (or the empty string) first and a run of 4301
  digits second the comparison is \<open>unknown\<close>; with the arguments swapped it is not
  \<open>unknown\<close>, the call raises \<open>ValueError\<close> (the same missing handler as for C7).
\<close>

theorem swap_unknown_raises_value_error:
  "compare_versions ''beta'' (replicate 4301 CHR ''1'') = Inr ''unknown''
   \<and> compare_versions (replicate 4301 CHR ''1'') ''beta'' = Inl ValueError
   \<and> compare_versions [] (replicate 4301 CHR ''1'') = Inr ''unknown''
   \<and> compare_versions (replicate 4301 CHR ''1'') [] = Inl ValueError"
proof -
  have l: "compare_versions (replicate 4301 CHR ''1'') b = Inl ValueError" for b
    using ones_long compare_versions_long_component [of "replicate 4301 CHR ''1''" b]
    by blast
  have u1: "compare_versions ''beta'' (replicate 4301 CHR ''1'') = Inr ''unknown''"
    unfolding compare_versions_unknown_iff using parse_version_beta by blast
  have u2: "compare_versions [] (replicate 4301 CHR ''1'') = Inr ''unknown''"
    unfolding compare_versions_unknown_iff using parse_version_empty by blast
  from u1 u2 l [of "''beta''"] l [of "[]"] show ?thesis by blast
qed

section \<open>The remote lookup\<close>

lemma retry_loop_facts:
  "retry_loop base outcome k left = (r, n, ws) \<Longrightarrow>
     k \<le> n \<and> n \<le> k + left \<and> r = outcome n
     \<and> ws = map (retry_interval base) [k..<n]
     \<and> (\<forall>j. k \<le> j \<and> j < n \<longrightarrow> retryable (outcome j))
     \<and> (n < k + left \<longrightarrow> \<not> retryable (outcome n))"
proof (induction left arbitrary: k r n ws)
  case 0
  then show ?case by auto
next
  case (Suc left)
  show ?case
  proof (cases "retryable (outcome k)")
    case False
    with Suc.prems show ?thesis by auto
  next
    case True
    obtain r' n' ws' where rec: "retry_loop base outcome (Suc k) left = (r', n', ws')"
      by (cases "retry_loop base outcome (Suc k) left") auto
    with True Suc.prems have eq: "r = r'" "n = n'" "ws = retry_interval base k # ws'"
      by auto
    note ih = Suc.IH [OF rec]
    from ih have kn: "Suc k \<le> n'" by simp
    then have "[k..<n'] = k # [Suc k..<n']" by (simp add: upt_conv_Cons)
    moreover have "\<forall>j. k \<le> j \<and> j < n' \<longrightarrow> retryable (outcome j)"
    proof (intro allI impI)
      fix j assume "k \<le> j \<and> j < n'"
      then have "j = k \<or> (Suc k \<le> j \<and> j < n')" by auto
      with True ih show "retryable (outcome j)" by blast
    qed
    ultimately show ?thesis using ih kn unfolding eq by auto
  qed
qed

lemma request_facts:
  "\<exists>r. request base outcome = (r, attempts_made base outcome, waits_made base outcome)
     \<and> 1 \<le> attempts_made base outcome \<and> attempts_made base outcome \<le> 3
     \<and> r = outcome (attempts_made base outcome)
     \<and> waits_made base outcome = map (retry_interval base) [1..<attempts_made base outcome]
     \<and> (\<forall>j. 1 \<le> j \<and> j < attempts_made base outcome \<longrightarrow> retryable (outcome j))
     \<and> (attempts_made base outcome < 3 \<longrightarrow> \<not> retryable (outcome (attempts_made base outcome)))"
proof -
  obtain r n ws where q: "retry_loop base outcome 1 (attempts - 1) = (r, n, ws)"
    by (cases "retry_loop base outcome 1 (attempts - 1)") auto
  have rq: "request base outcome = (r, n, ws)"
    unfolding request_def by (rule q)
  then have am: "attempts_made base outcome = n" and wm: "waits_made base outcome = ws"
    by (simp_all add: attempts_made_def waits_made_def)
  from retry_loop_facts [OF q]
  have "1 \<le> n \<and> n \<le> 3 \<and> r = outcome n
     \<and> ws = map (retry_interval base) [1..<n]
     \<and> (\<forall>j. 1 \<le> j \<and> j < n \<longrightarrow> retryable (outcome j))
     \<and> (n < 3 \<longrightarrow> \<not> retryable (outcome n))"
    by (simp add: attempts_def)
  with rq show ?thesis unfolding am wm by blast
qed

lemma retryable_cases:
  "retryable a \<longleftrightarrow>
     a = Transport_failure \<or> a = Timed_out
     \<or> (\<exists>status body. a = Response status body \<and> \<not> success status)"
  by (cases a) (auto simp: retryable_def)

lemma session_get_final:
  "session_get base outcome =
     (case outcome (attempts_made base outcome) of
        Response status body \<Rightarrow> if success status then Inr body else Inl ClientError
      | Timed_out \<Rightarrow> Inl TimeoutError
      | Transport_failure \<Rightarrow> Inl ClientError)"
  using request_facts [of base outcome] by (auto simp: session_get_def)

lemma lookup_never_raises: "\<exists>v. lookup cells base outcome = Inr v"
  by (auto simp: lookup_def scrape_latest_version_def session_get_final
      split: attempt.splits)

lemma lookup_exhausted:
  assumes "\<forall>k. retryable (outcome k)"
  shows "attempts_made base outcome = 3 \<and> lookup cells base outcome = Inr []"
proof -
  from request_facts [of base outcome] assms have n: "attempts_made base outcome = 3"
    by (metis le_neq_implies_less)
  from assms have "retryable (outcome 3)" by simp
  then have "lookup cells base outcome = Inr []"
    by (auto simp: lookup_def scrape_latest_version_def session_get_final n retryable_def
        split: attempt.splits)
  with n show ?thesis by simp
qed

lemma lookup_third_attempt:
  assumes "retryable (outcome 1)" and "retryable (outcome 2)"
    and "outcome 3 = Response status body" and "success status"
  shows "attempts_made base outcome = 3
     \<and> lookup cells base outcome = Inr (scan_cells ''Version String:'' (cells body))"
proof -
  let ?n = "attempts_made base outcome"
  from request_facts [of base outcome]
  have b: "1 \<le> ?n" "?n \<le> 3" and stop: "?n < 3 \<longrightarrow> \<not> retryable (outcome ?n)"
    by blast+
  have n: "?n = 3"
  proof (rule ccontr)
    assume "?n \<noteq> 3"
    with b have "?n = 1 \<or> ?n = 2" by arith
    with stop assms(1,2) show False by auto
  qed
  with assms(3,4) show ?thesis
    by (simp add: lookup_def scrape_latest_version_def session_get_final)
qed

lemma lookup_first_attempt:
  assumes "outcome 1 = Response status body" and "success status"
  shows "attempts_made base outcome = 1"
proof -
  from assms have "\<not> retryable (outcome 1)" by (simp add: retryable_def)
  moreover from request_facts [of base outcome]
  have "1 \<le> attempts_made base outcome"
    and "\<forall>j. 1 \<le> j \<and> j < attempts_made base outcome \<longrightarrow> retryable (outcome j)"
    by blast+
  ultimately show ?thesis by (metis le_neq_implies_less order_refl)
qed

text \<open>
  C4: a remote lookup makes at least one and at most three attempts; the wait after the
  attempt number \<open>k\<close> is \<open>base * 2 ^ (k - 1)\<close>, so the waits double; every attempt that was
  followed by another one had ended with a transport failure, a timeout or a status
  that is not 2xx, and a first attempt with a 2xx response is not repeated (also when
  the page has no version: that is no failure). When the first two attempts fail and
  the third one succeeds, the lookup returns what the scan of the third page for the
  label gives; when every attempt fails, the lookup has made exactly three attempts and
  returns the empty string. In no case does the lookup raise.
\<close>

theorem lookup_retry_policy:
  "1 \<le> attempts_made base outcome \<and> attempts_made base outcome \<le> 3
   \<and> waits_made base outcome
       = map (\<lambda>k. base * 2 ^ (k - 1)) [1..<attempts_made base outcome]
   \<and> (\<forall>k. 1 \<le> k \<and> k < attempts_made base outcome \<longrightarrow>
          outcome k = Transport_failure \<or> outcome k = Timed_out
          \<or> (\<exists>status body. outcome k = Response status body \<and> \<not> (200 \<le> status \<and> status < 300)))
   \<and> (outcome 1 = Response status1 body1 \<and> 200 \<le> status1 \<and> status1 < 300
        \<longrightarrow> attempts_made base outcome = 1)
   \<and> (retryable (outcome 1) \<and> retryable (outcome 2)
        \<and> outcome 3 = Response status3 body3 \<and> 200 \<le> status3 \<and> status3 < 300
        \<longrightarrow> attempts_made base outcome = 3
          \<and> lookup cells base outcome = Inr (scan_cells ''Version String:'' (cells body3)))
   \<and> ((\<forall>k. retryable (outcome k))
        \<longrightarrow> attempts_made base outcome = 3 \<and> lookup cells base outcome = Inr [])
   \<and> (\<exists>v. lookup cells base outcome = Inr v)"
proof -
  from request_facts [of base outcome]
  have b: "1 \<le> attempts_made base outcome \<and> attempts_made base outcome \<le> 3"
    and w: "waits_made base outcome = map (retry_interval base) [1..<attempts_made base outcome]"
    and r: "\<forall>j. 1 \<le> j \<and> j < attempts_made base outcome \<longrightarrow> retryable (outcome j)"
    by blast+
  have w': "waits_made base outcome
       = map (\<lambda>k. base * 2 ^ (k - 1)) [1..<attempts_made base outcome]"
    unfolding w by (rule map_cong) (simp_all add: retry_interval_def)
  have r': "\<forall>k. 1 \<le> k \<and> k < attempts_made base outcome \<longrightarrow>
          outcome k = Transport_failure \<or> outcome k = Timed_out
          \<or> (\<exists>status body. outcome k = Response status body \<and> \<not> (200 \<le> status \<and> status < 300))"
    using r unfolding retryable_cases success_def by blast
  have f: "outcome 1 = Response status1 body1 \<and> 200 \<le> status1 \<and> status1 < 300
        \<longrightarrow> attempts_made base outcome = 1"
    using lookup_first_attempt [of outcome status1 body1 base] by (simp add: success_def)
  have t: "retryable (outcome 1) \<and> retryable (outcome 2)
        \<and> outcome 3 = Response status3 body3 \<and> 200 \<le> status3 \<and> status3 < 300
        \<longrightarrow> attempts_made base outcome = 3
          \<and> lookup cells base outcome = Inr (scan_cells ''Version String:'' (cells body3))"
    using lookup_third_attempt [of outcome status3 body3 base cells] by (simp add: success_def)
  have e: "(\<forall>k. retryable (outcome k))
        \<longrightarrow> attempts_made base outcome = 3 \<and> lookup cells base outcome = Inr []"
    using lookup_exhausted [of outcome base cells] by blast
  from b w' r' f t e lookup_never_raises [of cells base outcome] show ?thesis by blast
qed

theorem lookup_retry_policy_witness:
  "retryable ((\<lambda>k::nat. if k < 3 then Timed_out else Response 200 ''page'') 1)
   \<and> retryable ((\<lambda>k::nat. if k < 3 then Timed_out else Response 200 ''page'') 2)
   \<and> attempts_made 100 (\<lambda>k. if k < 3 then Timed_out else Response 200 ''page'') = 3
   \<and> waits_made 100 (\<lambda>k. if k < 3 then Timed_out else Response 200 ''page'') = [100, 200]
   \<and> lookup (\<lambda>t. [(''Version String:'', Some '' 1.2 '')]) 100
        (\<lambda>k. if k < 3 then Timed_out else Response 200 ''page'') = Inr ''1.2''
   \<and> (\<forall>k::nat. retryable ((\<lambda>k. Response 503 []) k))
   \<and> attempts_made 100 (\<lambda>k. Response 503 []) = 3
   \<and> lookup (\<lambda>t. [(''Version String:'', Some '' 1.2 '')]) 100 (\<lambda>k. Response 503 []) = Inr []
   \<and> attempts_made 100 (\<lambda>k. Response 200 ''page'') = 1"
proof -
  let ?o = "\<lambda>k::nat. if k < 3 then Timed_out else Response 200 ''page''"
  let ?c = "\<lambda>t::string. [(''Version String:'', Some '' 1.2 '')]"
  have h1: "retryable (?o 1)" "retryable (?o 2)" by (simp_all add: retryable_def)
  have h3: "?o 3 = Response 200 ''page'' \<and> (200::nat) \<le> 200 \<and> (200::nat) < 300" by simp
  have h4: "\<forall>k::nat. retryable ((\<lambda>k. Response 503 []) k)"
    by (simp add: retryable_def success_def)
  have s: "scan_cells ''Version String:'' (?c ''page'') = ''1.2''" by code_simp
  have w: "map (\<lambda>k. (100::nat) * 2 ^ (k - 1)) [1..<3] = [100, 200]" by code_simp
  have h5: "(\<lambda>k::nat. Response 200 ''page'') 1 = Response 200 ''page''
      \<and> (200::nat) \<le> 200 \<and> (200::nat) < 300" by simp
  note a = lookup_retry_policy [of 100 ?o 200 "''page''" 200 "''page''" ?c]
  note b = lookup_retry_policy [of 100 "\<lambda>k. Response 503 []" 200 "''page''" 200 "''page''" ?c]
  note c = lookup_retry_policy [of 100 "\<lambda>k. Response 200 ''page''" 200 "''page''" 200 "''page''" ?c]
  from a h1 h3 have a3: "attempts_made 100 ?o = 3"
    and al: "lookup ?c 100 ?o = Inr (scan_cells ''Version String:'' (?c ''page''))"
    by blast+
  from a a3 w have aw: "waits_made 100 ?o = [100, 200]" by simp
  from b h4 have b3: "attempts_made 100 (\<lambda>k. Response 503 []) = 3"
    and bl: "lookup ?c 100 (\<lambda>k. Response 503 []) = Inr []"
    by blast+
  from c h5 have c1: "attempts_made 100 (\<lambda>k. Response 200 ''page'') = 1" by blast
  from h1 a3 aw al s h4 b3 bl c1 show ?thesis by simp
qed

section \<open>Further facts about the code\<close>

text \<open>
  The pre-filter can hide an update: \<open>12.3\<close> occurs in \<open>1.12.3\<close>, so the entry is
  skipped, although the comparison of the two versions is \<open>update_available\<close>.
\<close>

theorem prefilter_hides_update:
  "classify [''App'', ''com.app'', ''1.12.3'', ''12.3''] = Inr Already_current
   \<and> compare_versions ''1.12.3'' ''12.3'' = Inr ''update_available''"
  by code_simp

text \<open>
  The end-to-end example of the specification: Foo 1.0.0 with the latest version 1.1.0
  and Bar 2.0.0 with the latest version 2.0.0 (Bar is first after the sort, so its
  lookup is the one at position 0). Only Foo is in the list of updates.
\<close>

theorem end_to_end_example:
  "main_updates (\<lambda>i. if i = 0 then ''2.0.0'' else ''1.1.0'')
     [[''Foo'', ''com.foo'', ''1.0.0''], [''Bar'', ''com.bar'', ''2.0.0'']]
   = Inr [[''Foo'', ''com.foo'', ''1.0.0'', ''1.1.0'']]"
  by code_simp

text \<open>
  Formatting does not matter to the comparison: a prefix letter, leading zeros of a
  component and trailing zero components are ignored, and an empty component (two dots
  in a row) is dropped by the normalization.
\<close>

theorem formatting_insensitive_example:
  "compare_versions ''v1.02.0'' ''1.2'' = Inr ''versions_equal''
   \<and> normalize_version ''1..2'' = ''1.2''"
  by code_simp

text \<open>
  A version with a superscript digit is kept by the normalization and then does not
  parse: the comparison is \<open>unknown\<close>.
\<close>

theorem superscript_digit_unparsable:
  "compare_versions [CHR ''1'', CHR 0xB2] ''1'' = Inr ''unknown''"
  by code_simp

text \<open>
  \<open>compare_versions\<close> returns one of its four strings or raises \<open>ValueError\<close>.
\<close>

theorem compare_versions_range:
  "compare_versions a b \<in> {Inr ''update_available'', Inr ''up_to_date'',
      Inr ''versions_equal'', Inr ''unknown'', Inl ValueError}"
proof -
  have p: "parse_version s = Inl e \<Longrightarrow> e = InvalidVersion \<or> e = ValueError" for s e
  proof -
    have "release_of ps = Inl e \<Longrightarrow> e = ValueError" for ps
      by (induction ps) (auto simp: python_int_def split: sum.splits if_splits)
    then show "parse_version s = Inl e \<Longrightarrow> e = InvalidVersion \<or> e = ValueError"
      by (auto simp: parse_version_def split: if_splits)
  qed
  show ?thesis
    using p [of "normalize_version a"] p [of "normalize_version b"]
    by (auto simp: compare_versions_def split: sum.splits)
qed

text \<open>
  Swapping the arguments swaps \<open>update_available\<close> and \<open>up_to_date\<close>.
\<close>

theorem compare_versions_swap:
  "(compare_versions a b = Inr ''update_available'') = (compare_versions b a = Inr ''up_to_date'')"
  unfolding compare_versions_update_iff compare_versions_up_to_date_iff
  by auto

subsection \<open>Versions of at most 4300 characters\<close>

lemma length_collapse_dots: "length (collapse_dots s) \<le> length s"
proof (induction s rule: collapse_dots.induct)
  case 1
  then show ?case by simp
next
  case (2 c cs)
  have "length (dropWhile is_dot cs) \<le> length cs" by (rule length_dropWhile_le)
  with 2 show ?case by auto
qed

lemma length_strip_dots: "length (strip_dots s) \<le> length s"
proof -
  have "length (dropWhile is_dot (rev (dropWhile is_dot s))) \<le> length (dropWhile is_dot s)"
    using length_dropWhile_le [of is_dot "rev (dropWhile is_dot s)"] by simp
  also have "\<dots> \<le> length s" by (rule length_dropWhile_le)
  finally show ?thesis by (simp add: strip_dots_def)
qed

lemma length_normalize_version: "length (normalize_version s) \<le> length s"
proof -
  have "length (normalize_version s) \<le> length (collapse_dots (map keep_or_dot s))"
    unfolding normalize_version_def by (rule length_strip_dots)
  also have "\<dots> \<le> length (map keep_or_dot s)" by (rule length_collapse_dots)
  finally show ?thesis by simp
qed

lemma length_split_on: "p \<in> set (split_on d s) \<Longrightarrow> length p \<le> length s"
proof (induction s arbitrary: p)
  case Nil
  then show ?case by simp
next
  case (Cons c cs)
  show ?case
  proof (cases "c = d")
    case True
    with Cons show ?thesis by (auto simp: le_Suc_eq)
  next
    case False
    obtain q qs where sp: "split_on d cs = q # qs"
      using split_on_not_Nil [of d cs] by (cases "split_on d cs") auto
    with False Cons.prems have "p = c # q \<or> p \<in> set qs" by auto
    with sp Cons.IH [of q] Cons.IH [of p] show ?thesis by (auto simp: le_Suc_eq)
  qed
qed

lemma release_of_short:
  "list_all (\<lambda>p. length p \<le> int_max_str_digits) ps \<Longrightarrow> \<exists>ns. release_of ps = Inr ns"
  by (induction ps) (auto simp: python_int_def)

lemma parse_version_short:
  assumes "length s \<le> int_max_str_digits"
  shows "parse_version s = Inl InvalidVersion \<or> (\<exists>xs. parse_version s = Inr xs)"
proof -
  have "list_all (\<lambda>p. length p \<le> int_max_str_digits) (split_on CHR ''.'' s)"
    unfolding list_all_iff using length_split_on assms by (meson le_trans)
  then show ?thesis
    using release_of_short by (auto simp: parse_version_def)
qed

lemma compare_versions_short:
  assumes "length a \<le> int_max_str_digits" and "length b \<le> int_max_str_digits"
  shows "\<exists>r. compare_versions a b = Inr r"
proof -
  have "length (normalize_version a) \<le> int_max_str_digits"
    using length_normalize_version [of a] assms(1) by simp
  moreover have "length (normalize_version b) \<le> int_max_str_digits"
    using length_normalize_version [of b] assms(2) by simp
  ultimately show ?thesis
    using parse_version_short [of "normalize_version a"] parse_version_short [of "normalize_version b"]
    by (auto simp: compare_versions_def)
qed

lemma classify_short:
  assumes "length e \<le> 4" and "short_versions e"
  shows "\<exists>v. classify e = Inr v"
proof (cases "length e < 4")
  case True
  then show ?thesis by (simp add: classify_def)
next
  case False
  with assms(1) have "length e = 4" by simp
  then obtain n i inst lat where e: "e = [n, i, inst, lat]"
    by (auto simp: length_Suc_conv numeral_eq_Suc)
  with assms(2) obtain r where "compare_versions inst lat = Inr r"
    using compare_versions_short [of inst lat] by (auto simp: short_versions_def)
  then show ?thesis by (simp add: e classify_four)
qed

lemma collect_updates_short:
  "list_all (\<lambda>e. length e \<le> 4 \<and> short_versions e) xs \<Longrightarrow> \<exists>ups. collect_updates acc xs = Inr ups"
proof (induction xs arbitrary: acc)
  case Nil
  then show ?case by simp
next
  case (Cons e es)
  then obtain v where v: "classify e = Inr v" using classify_short [of e] by auto
  from Cons have ih: "\<And>a. \<exists>ups. collect_updates a es = Inr ups" by simp
  show ?case using v ih by (cases v) auto
qed

lemma fetch_latest_versions_short:
  assumes "list_all (\<lambda>e. length e = 3 \<and> short_versions e) xs"
    and "\<forall>i. length (scraped i) \<le> int_max_str_digits"
  shows "\<exists>fetched. fetch_latest_versions scraped i xs = Inr fetched
      \<and> list_all (\<lambda>e. length e \<le> 4 \<and> short_versions e) fetched"
  using assms(1)
proof (induction xs arbitrary: i)
  case Nil
  then show ?case by simp
next
  case (Cons e es)
  from Cons.prems have "length e = 3" and se: "short_versions e" by simp_all
  then obtain a b c where e: "e = [a, b, c]"
    by (auto simp: length_Suc_conv numeral_3_eq_3)
  from Cons obtain fetched where f: "fetch_latest_versions scraped (Suc i) es = Inr fetched"
    "list_all (\<lambda>e. length e \<le> 4 \<and> short_versions e) fetched"
    by fastforce
  from se assms(2) have "short_versions ([a, b, c] @ [scraped i])"
    by (simp add: short_versions_def e)
  with f show ?case
    by (simp add: e fetch_latest_version_for_app_def)
qed

text \<open>
  The run over application data as \<open>load_all_info_plists\<close> builds them (three fields per
  entry) raises no exception when no field and no answer of a lookup has more than 4300
  characters.
\<close>

theorem main_updates_total:
  assumes "list_all (\<lambda>e. length e = 3 \<and> short_versions e) app_data"
    and "\<forall>i. length (scraped i) \<le> int_max_str_digits"
  shows "\<exists>updates. main_updates scraped app_data = Inr updates"
proof -
  from assms(1) have s: "sort_app_data app_data = Inr (sort_key name_key app_data)"
    by (auto simp: sort_app_data_def list_all_iff list_ex_iff)
  from assms(1) have "list_all (\<lambda>e. length e = 3 \<and> short_versions e) (sort_key name_key app_data)"
    by (simp add: list_all_iff)
  then obtain fetched where f:
    "fetch_latest_versions scraped 0 (sort_key name_key app_data) = Inr fetched"
    "list_all (\<lambda>e. length e \<le> 4 \<and> short_versions e) fetched"
    using fetch_latest_versions_short [OF _ assms(2), of "sort_key name_key app_data" 0] by blast
  from f(2) obtain updates where "collect_updates [] fetched = Inr updates"
    using collect_updates_short by blast
  with f(1) s show ?thesis
    by (simp add: main_updates_def)
qed

theorem main_updates_total_witness:
  "list_all (\<lambda>e. length e = 3 \<and> short_versions e) [[''Foo'', ''com.foo'', ''1.0.0'']]
   \<and> (\<forall>i::nat. length ((\<lambda>i. ''1.1.0'') i) \<le> int_max_str_digits)
   \<and> (\<exists>updates. main_updates (\<lambda>i. ''1.1.0'') [[''Foo'', ''com.foo'', ''1.0.0'']] = Inr updates)"
proof -
  have h: "list_all (\<lambda>e. length e = 3 \<and> short_versions e) [[''Foo'', ''com.foo'', ''1.0.0'']]"
    by (simp add: short_versions_def int_max_str_digits_def)
  have g: "\<forall>i::nat. length ((\<lambda>i. ''1.1.0'') i) \<le> int_max_str_digits"
    by (simp add: int_max_str_digits_def)
  from h g main_updates_total [OF h g] show ?thesis by blast
qed

text \<open>
  When neither version has more than 4300 characters, the comparison is \<open>unknown\<close>
  exactly when one of the two does not parse.
\<close>

theorem unknown_iff_unparsable_short:
  assumes "length a \<le> int_max_str_digits" and "length b \<le> int_max_str_digits"
  shows "compare_versions a b = Inr ''unknown'' \<longleftrightarrow>
     parse_version (normalize_version a) = Inl InvalidVersion
     \<or> parse_version (normalize_version b) = Inl InvalidVersion"
proof -
  have "length (normalize_version a) \<le> int_max_str_digits"
    using length_normalize_version [of a] assms(1) by simp
  then have "parse_version (normalize_version a) = Inl InvalidVersion
      \<or> (\<exists>xs. parse_version (normalize_version a) = Inr xs)"
    by (rule parse_version_short)
  then show ?thesis
    unfolding compare_versions_unknown_iff by auto
qed

theorem unknown_iff_unparsable_short_witness:
  "length ''beta'' \<le> int_max_str_digits \<and> length ''1.0'' \<le> int_max_str_digits
   \<and> parse_version (normalize_version ''beta'') = Inl InvalidVersion
   \<and> compare_versions ''beta'' ''1.0'' = Inr ''unknown''"
proof -
  have h: "length ''beta'' \<le> int_max_str_digits" "length ''1.0'' \<le> int_max_str_digits"
    by (simp_all add: int_max_str_digits_def)
  have p: "parse_version (normalize_version ''beta'') = Inl InvalidVersion" by code_simp
  from h p unknown_iff_unparsable_short [OF h] show ?thesis by blast
qed

end
